theory Spec2Isabelle
  imports Main
begin

section \<open>Data model\<close>

text \<open>
  The controller \<^verbatim>\<open>src/app/controllers/user.controller.js\<close> works on rows of a
  relational database through an ORM. A table is a list of rows (order and duplicates
  are kept, so that rows can be counted); a row carries the columns the controller and
  the foreign keys use. Identifiers are JavaScript numbers holding integers.
\<close>

record user =
  user_id :: int
  user_email :: string

record event =
  event_id :: int
  event_name :: string

record checkin =
  ci_event_id :: int
  ci_user_id :: int

text \<open>
  \<^verbatim>\<open>tokens.user_id\<close> (model \<^verbatim>\<open>Token\<close>) and \<^verbatim>\<open>talks.speaker_id\<close> (migration
  \<^verbatim>\<open>create-talk\<close>) reference \<^verbatim>\<open>users.id\<close> with \<^verbatim>\<open>onDelete: 'CASCADE'\<close>.
\<close>

record token =
  token_user_id :: int
  token_value :: string

record talk =
  talk_speaker_id :: int
  talk_name :: string
  talk_description :: string

record application =
  application_user_id :: int

record database =
  users :: "user list"
  events :: "event list"
  checkins :: "checkin list"
  tokens :: "token list"
  talks :: "talk list"
  applications :: "application list"

datatype error = NotFoundError string | StorageError string

text \<open>The type \<^verbatim>\<open>SuccessMessage\<close>; \<open>None\<close> is the message \<^verbatim>\<open>null\<close>.\<close>

record success_message =
  success :: bool
  message :: "string option"

section \<open>Storage, transactions and promises\<close>

text \<open>
  Every call to the storage layer is awaited and may throw. The record \<open>storage\<close> says,
  for one call of a controller function, which storage operations fail and with which
  error message (\<open>None\<close>: the operation succeeds).

  \<^verbatim>\<open>user.destroy({ force: true }, { transaction: t })\<close> hands the transaction over
  in a second argument. Whether the ORM runs the delete inside \<open>t\<close> is left open:
  \<open>destroy_in_txn\<close> is \<open>True\<close> when it does, \<open>False\<close> when the delete is
  committed on its own.
\<close>

record storage =
  f_transaction :: "string option"
  f_findUser :: "string option"
  f_findEvent :: "string option"
  f_findCheckIn :: "string option"
  f_create :: "string option"
  f_destroy :: "string option"
  f_commit :: "string option"
  f_rollback :: "string option"
  destroy_in_txn :: bool

definition reliable :: storage where
  "reliable = \<lparr>f_transaction = None, f_findUser = None, f_findEvent = None,
     f_findCheckIn = None, f_create = None, f_destroy = None, f_commit = None,
     f_rollback = None, destroy_in_txn = False\<rparr>"

text \<open>All storage operations of the call succeed.\<close>

definition faultless :: "storage \<Rightarrow> bool" where
  "faultless f = (f_transaction f = None \<and> f_findUser f = None \<and> f_findEvent f = None \<and>
     f_findCheckIn f = None \<and> f_create f = None \<and> f_destroy f = None \<and>
     f_commit f = None \<and> f_rollback f = None)"

datatype txn_status = NotStarted | Open | Committed | RolledBack

text \<open>A write made under a transaction is pending until the transaction commits.\<close>

datatype pending_write = InsertCheckIn checkin | DestroyUser int

datatype promise = Pending | Resolved success_message | Rejected error

datatype lookup = GetUser | GetEvent | GetCheckIn

text \<open>
  The trace lists the steps of a call in the order they happen: a storage operation
  when it completes, whether it succeeded or failed (a lookup, \<^verbatim>\<open>transaction\<close>,
  \<^verbatim>\<open>create\<close>, \<^verbatim>\<open>commit\<close>, \<^verbatim>\<open>rollback\<close>, the delete), the call of
  \<^verbatim>\<open>destroy\<close>, which is not awaited, and the settling of the promise, which hands
  the result to the caller.
\<close>

datatype action = EvLookup lookup | EvBegin | EvCreate | EvDestroyIssued | EvDestroyDone
  | EvDestroyFailed | EvCommit | EvRollback | EvSettled promise

record state =
  db :: database
  txn_status :: txn_status
  pending :: "pending_write list"
  promise :: promise
  trace :: "action list"

definition init :: "database \<Rightarrow> state" where
  "init d = \<lparr>db = d, txn_status = NotStarted, pending = [], promise = Pending, trace = []\<rparr>"

definition log :: "action \<Rightarrow> state \<Rightarrow> state" where
  "log a s = s\<lparr>trace := trace s @ [a]\<rparr>"

text \<open>
  \<^verbatim>\<open>resolve\<close> and \<^verbatim>\<open>reject\<close> of \<^verbatim>\<open>new Promise((resolve, reject) => ...)\<close>: the
  first call settles the promise, every later call does nothing.
\<close>

definition resolve :: "success_message \<Rightarrow> state \<Rightarrow> state" where
  "resolve v s = (if promise s = Pending
     then log (EvSettled (Resolved v)) (s\<lparr>promise := Resolved v\<rparr>) else s)"

definition reject :: "error \<Rightarrow> state \<Rightarrow> state" where
  "reject e s = (if promise s = Pending
     then log (EvSettled (Rejected e)) (s\<lparr>promise := Rejected e\<rparr>) else s)"

text \<open>
  A function that can throw returns \<open>Inl (e, s)\<close>: the error and the state at the
  throw.
\<close>

type_synonym 'a throws = "(error \<times> state) + 'a"

text \<open>\<^verbatim>\<open>models.sequelize.transaction()\<close>: opens a transaction.\<close>

definition transaction :: "storage \<Rightarrow> state \<Rightarrow> state throws" where
  "transaction f s = (let s' = log EvBegin s in
     case f_transaction f of
       Some m \<Rightarrow> Inl (StorageError m, s')
     | None \<Rightarrow> Inr (s'\<lparr>txn_status := Open, pending := []\<rparr>))"

text \<open>
  Modelled from the spec: the foreign keys of check-ins and applications to
  \<^verbatim>\<open>users.id\<close> (their models and migrations are not among the sources). The spec
  lists tokens, applications, talks and check-ins as the rows that
  \<^verbatim>\<open>ON DELETE CASCADE\<close> removes with their user; the sources show it for tokens
  and talks. \<open>destroy_user\<close> is what the database does on
  \<^verbatim>\<open>DELETE FROM users WHERE id = uid\<close>.
\<close>

definition destroy_user :: "int \<Rightarrow> database \<Rightarrow> database" where
  "destroy_user uid d = d\<lparr>
     users := filter (\<lambda>u. user_id u \<noteq> uid) (users d),
     checkins := filter (\<lambda>c. ci_user_id c \<noteq> uid) (checkins d),
     tokens := filter (\<lambda>t. token_user_id t \<noteq> uid) (tokens d),
     talks := filter (\<lambda>t. talk_speaker_id t \<noteq> uid) (talks d),
     applications := filter (\<lambda>a. application_user_id a \<noteq> uid) (applications d)\<rparr>"

text \<open>
  Modelled from the spec: the check-in table has no uniqueness constraint on
  \<^verbatim>\<open>(event_id, user_id)\<close> (its migration is not among the sources, and the spec
  says the source models none), so an insert that commits always adds its row.
\<close>

fun apply_write :: "database \<Rightarrow> pending_write \<Rightarrow> database" where
  "apply_write d (InsertCheckIn c) = d\<lparr>checkins := checkins d @ [c]\<rparr>"
| "apply_write d (DestroyUser uid) = destroy_user uid d"

text \<open>\<^verbatim>\<open>t.commit()\<close>: the pending writes reach the database, or the commit throws.\<close>

definition commit :: "storage \<Rightarrow> state \<Rightarrow> state throws" where
  "commit f s = (let s' = log EvCommit s in
     case f_commit f of
       Some m \<Rightarrow> Inl (StorageError m, s')
     | None \<Rightarrow> Inr (s'\<lparr>db := foldl apply_write (db s') (pending s'),
                       pending := [], txn_status := Committed\<rparr>))"

text \<open>
  \<^verbatim>\<open>t.rollback()\<close>: the pending writes are dropped. It is the last statement of a
  \<^verbatim>\<open>catch\<close> block inside the promise's executor, so an error it throws reaches
  nobody; the transaction then stays open.
\<close>

definition rollback :: "storage \<Rightarrow> state \<Rightarrow> state" where
  "rollback f s = (let s' = log EvRollback s in
     case f_rollback f of
       Some m \<Rightarrow> s'
     | None \<Rightarrow> s'\<lparr>pending := [], txn_status := RolledBack\<rparr>)"

text \<open>
  \<^verbatim>\<open>models.CheckIn.create({event_id, user_id}, { transaction: t })\<close>: the insert is a
  pending write of the transaction.
\<close>

definition create :: "storage \<Rightarrow> checkin \<Rightarrow> state \<Rightarrow> state throws" where
  "create f c s = (let s' = log EvCreate s in
     case f_create f of
       Some m \<Rightarrow> Inl (StorageError m, s')
     | None \<Rightarrow> Inr (s'\<lparr>pending := pending s' @ [InsertCheckIn c]\<rparr>))"

section \<open>Lookups\<close>

text \<open>
  \<^verbatim>\<open>findOne\<close> gives the first row that matches, or \<^verbatim>\<open>null\<close>. The lookups carry no
  transaction option: they read the committed rows. \<^verbatim>\<open>getUserById\<close> also loads the
  user's tokens, application, events and talks, which the callers below do not read.
\<close>

definition getUserById :: "storage \<Rightarrow> database \<Rightarrow> int \<Rightarrow> error + user option" where
  "getUserById f d uid = (case f_findUser f of
       Some m \<Rightarrow> Inl (StorageError m)
     | None \<Rightarrow> Inr (find (\<lambda>u. user_id u = uid) (users d)))"

text \<open>
  Modelled from the spec: \<^verbatim>\<open>eventController.getEventById\<close> (the event controller is not
  among the sources), as the collaborator \<^verbatim>\<open>findEventById(id) -> Event | null\<close>.
\<close>

definition getEventById :: "storage \<Rightarrow> database \<Rightarrow> int \<Rightarrow> error + event option" where
  "getEventById f d eid = (case f_findEvent f of
       Some m \<Rightarrow> Inl (StorageError m)
     | None \<Rightarrow> Inr (find (\<lambda>e. event_id e = eid) (events d)))"

definition getCheckIn :: "storage \<Rightarrow> database \<Rightarrow> int \<Rightarrow> int \<Rightarrow> error + checkin option" where
  "getCheckIn f d eventId userId = (case f_findCheckIn f of
       Some m \<Rightarrow> Inl (StorageError m)
     | None \<Rightarrow> Inr (find (\<lambda>c. ci_event_id c = eventId \<and> ci_user_id c = userId) (checkins d)))"

text \<open>
  \<^verbatim>\<open>Promise.all\<close> over the three lookups. They are issued together and complete in
  some order, one of the six below. \<^verbatim>\<open>Promise.all\<close> rejects as soon as one lookup
  rejects, with that lookup's error, and fulfils once all three have fulfilled, with the
  values in the order of the array.
\<close>

datatype completion_order = UEC | UCE | EUC | ECU | CUE | CEU

fun completion :: "completion_order \<Rightarrow> lookup list" where
  "completion UEC = [GetUser, GetEvent, GetCheckIn]"
| "completion UCE = [GetUser, GetCheckIn, GetEvent]"
| "completion EUC = [GetEvent, GetUser, GetCheckIn]"
| "completion ECU = [GetEvent, GetCheckIn, GetUser]"
| "completion CUE = [GetCheckIn, GetUser, GetEvent]"
| "completion CEU = [GetCheckIn, GetEvent, GetUser]"

fun rejection :: "error + 'a \<Rightarrow> error option" where
  "rejection (Inl e) = Some e"
| "rejection (Inr v) = None"

fun await_all :: "(lookup \<Rightarrow> error option) \<Rightarrow> lookup list \<Rightarrow> state \<Rightarrow> state throws" where
  "await_all rej [] s = Inr s"
| "await_all rej (l # ls) s = (case rej l of
       Some e \<Rightarrow> Inl (e, log (EvLookup l) s)
     | None \<Rightarrow> await_all rej ls (log (EvLookup l) s))"

definition promise_all :: "completion_order \<Rightarrow> error + user option \<Rightarrow> error + event option \<Rightarrow>
    error + checkin option \<Rightarrow> state \<Rightarrow> ((user option \<times> event option \<times> checkin option) \<times> state) throws" where
  "promise_all ord ru re rc s =
     (case await_all (\<lambda>l. case l of GetUser \<Rightarrow> rejection ru | GetEvent \<Rightarrow> rejection re
                                   | GetCheckIn \<Rightarrow> rejection rc) (completion ord) s of
        Inl (e, s') \<Rightarrow> Inl (e, s')
      | Inr s' \<Rightarrow>
         (case ru of Inl x \<Rightarrow> Inl (x, s') | Inr u \<Rightarrow>
         (case re of Inl x \<Rightarrow> Inl (x, s') | Inr e \<Rightarrow>
         (case rc of Inl x \<Rightarrow> Inl (x, s') | Inr c \<Rightarrow> Inr ((u, e, c), s')))))"

section \<open>checkInToEvent\<close>

text \<open>
  The body of the \<^verbatim>\<open>try\<close> block. After \<^verbatim>\<open>await t.commit()\<close> control leaves the
  \<^verbatim>\<open>if\<close> and reaches the second \<^verbatim>\<open>resolve\<close>, which finds the promise settled.
\<close>

definition checkIn_try :: "storage \<Rightarrow> completion_order \<Rightarrow> int \<Rightarrow> int \<Rightarrow> state \<Rightarrow> state throws" where
  "checkIn_try f ord eventId userId s =
     (case promise_all ord (getUserById f (db s) userId) (getEventById f (db s) eventId)
             (getCheckIn f (db s) eventId userId) s of
        Inl (e, s1) \<Rightarrow> Inl (e, s1)
      | Inr ((user, event, existingCheckIn), s1) \<Rightarrow>
         (case user of
            None \<Rightarrow> Inl (NotFoundError ''Unable to check-in because user does not exist'', s1)
          | Some u \<Rightarrow>
         (case event of
            None \<Rightarrow> Inl (NotFoundError ''Unable to check-in because event does not exist'', s1)
          | Some ev \<Rightarrow>
         (case existingCheckIn of
            None \<Rightarrow>
              (case create f \<lparr>ci_event_id = eventId, ci_user_id = userId\<rparr> s1 of
                 Inl (e, s2) \<Rightarrow> Inl (e, s2)
               | Inr s2 \<Rightarrow>
                  (case commit f (resolve \<lparr>success = True,
                          message = Some (user_email u @ '' checked into '' @ event_name ev @ ''!'')\<rparr> s2) of
                     Inl (e, s3) \<Rightarrow> Inl (e, s3)
                   | Inr s3 \<Rightarrow> Inr (resolve \<lparr>success = False,
                          message = Some (user_email u @ '' has already checked into '' @ event_name ev)\<rparr> s3)))
          | Some c \<Rightarrow> Inr (resolve \<lparr>success = False,
                          message = Some (user_email u @ '' has already checked into '' @ event_name ev)\<rparr> s1)))))"

text \<open>
  \<^verbatim>\<open>checkInToEvent(eventId, userId)\<close>, run on the database \<open>d\<close> until its executor
  has finished. The transaction is opened before the \<^verbatim>\<open>try\<close>: when that throws, the
  \<^verbatim>\<open>async\<close> executor's own promise rejects, which \<^verbatim>\<open>new Promise\<close> ignores, and the
  returned promise is never settled.
\<close>

definition checkInToEvent :: "storage \<Rightarrow> completion_order \<Rightarrow> int \<Rightarrow> int \<Rightarrow> database \<Rightarrow> state" where
  "checkInToEvent f ord eventId userId d =
     (case transaction f (init d) of
        Inl (e, s) \<Rightarrow> s
      | Inr s0 \<Rightarrow>
         (case checkIn_try f ord eventId userId s0 of
            Inr s \<Rightarrow> s
          | Inl (err, s) \<Rightarrow> rollback f (reject err s)))"

text \<open>
  The same call in two parts, cut at the moment its promise is settled and the caller
  has the result. What is left to do then is the rollback (after \<^verbatim>\<open>reject\<close> in the
  \<^verbatim>\<open>catch\<close> block), or the commit and what follows it (after the first
  \<^verbatim>\<open>resolve\<close>), or nothing. When the transaction cannot be opened the promise is
  never settled and the call has ended.
\<close>

datatype progress = ToRollback state | ToCommit user event state | Ended state

fun state_of :: "progress \<Rightarrow> state" where
  "state_of (ToRollback s) = s"
| "state_of (ToCommit u ev s) = s"
| "state_of (Ended s) = s"

definition checkIn_until_settled :: "storage \<Rightarrow> completion_order \<Rightarrow> int \<Rightarrow> int \<Rightarrow> database \<Rightarrow> progress" where
  "checkIn_until_settled f ord eventId userId d =
     (case transaction f (init d) of
        Inl (e, s) \<Rightarrow> Ended s
      | Inr s0 \<Rightarrow>
     (case promise_all ord (getUserById f (db s0) userId) (getEventById f (db s0) eventId)
             (getCheckIn f (db s0) eventId userId) s0 of
        Inl (e, s1) \<Rightarrow> ToRollback (reject e s1)
      | Inr ((user, event, existingCheckIn), s1) \<Rightarrow>
         (case user of
            None \<Rightarrow> ToRollback
              (reject (NotFoundError ''Unable to check-in because user does not exist'') s1)
          | Some u \<Rightarrow>
         (case event of
            None \<Rightarrow> ToRollback
              (reject (NotFoundError ''Unable to check-in because event does not exist'') s1)
          | Some ev \<Rightarrow>
         (case existingCheckIn of
            None \<Rightarrow>
              (case create f \<lparr>ci_event_id = eventId, ci_user_id = userId\<rparr> s1 of
                 Inl (e, s2) \<Rightarrow> ToRollback (reject e s2)
               | Inr s2 \<Rightarrow> ToCommit u ev (resolve \<lparr>success = True,
                          message = Some (user_email u @ '' checked into '' @ event_name ev @ ''!'')\<rparr> s2))
          | Some c \<Rightarrow> Ended (resolve \<lparr>success = False,
                          message = Some (user_email u @ '' has already checked into '' @ event_name ev)\<rparr> s1))))))"

definition checkIn_finish :: "storage \<Rightarrow> progress \<Rightarrow> state" where
  "checkIn_finish f p = (case p of
       ToRollback s \<Rightarrow> rollback f s
     | ToCommit u ev s \<Rightarrow>
        (case commit f s of
           Inl (e, s3) \<Rightarrow> rollback f (reject e s3)
         | Inr s3 \<Rightarrow> resolve \<lparr>success = False,
              message = Some (user_email u @ '' has already checked into '' @ event_name ev)\<rparr> s3)
     | Ended s \<Rightarrow> s)"

text \<open>
  Nothing makes one call wait for another: each opens its own transaction, and the
  lookups read the rows committed so far. \<open>on_database\<close> lets a call go on with the
  database as the other calls have left it meanwhile.
\<close>

fun on_database :: "database \<Rightarrow> progress \<Rightarrow> progress" where
  "on_database d (ToRollback s) = ToRollback (s\<lparr>db := d\<rparr>)"
| "on_database d (ToCommit u ev s) = ToCommit u ev (s\<lparr>db := d\<rparr>)"
| "on_database d (Ended s) = Ended (s\<lparr>db := d\<rparr>)"

text \<open>
  A caller that awaits the first call and calls again as soon as it has the result: the
  second call opens its transaction, has its lookups answered and gets as far as its own
  result while what the first call has left to do is still under way; the first call
  then finishes, and the second after it. The result is the two final states, the
  database at the end being that of the second.
\<close>

definition checkIn_again_on_result :: "storage \<Rightarrow> completion_order \<Rightarrow> storage \<Rightarrow> completion_order \<Rightarrow>
    int \<Rightarrow> int \<Rightarrow> database \<Rightarrow> state \<times> state" where
  "checkIn_again_on_result f1 o1 f2 o2 eventId userId d =
     (let p1 = checkIn_until_settled f1 o1 eventId userId d;
          p2 = checkIn_until_settled f2 o2 eventId userId (db (state_of p1));
          a = checkIn_finish f1 p1;
          b = checkIn_finish f2 (on_database (db a) p2)
      in (a, b))"

section \<open>deleteUserById\<close>

text \<open>
  \<^verbatim>\<open>user.destroy(...)\<close> is called and its promise dropped: the delete is under way
  when \<^verbatim>\<open>resolve\<close> runs and completes later. If it fails, nothing is deleted and
  nobody handles the rejection.
\<close>

definition destroy_issued :: "state \<Rightarrow> state" where
  "destroy_issued s = log EvDestroyIssued s"

definition destroy_completes :: "storage \<Rightarrow> int \<Rightarrow> state \<Rightarrow> state" where
  "destroy_completes f uid s = (case f_destroy f of
       Some m \<Rightarrow> log EvDestroyFailed s
     | None \<Rightarrow> log EvDestroyDone
         (if destroy_in_txn f then s\<lparr>pending := pending s @ [DestroyUser uid]\<rparr>
          else s\<lparr>db := destroy_user uid (db s)\<rparr>))"

text \<open>The body of the \<^verbatim>\<open>try\<close> block.\<close>

definition deleteUser_try :: "storage \<Rightarrow> user \<Rightarrow> state \<Rightarrow> state throws" where
  "deleteUser_try f usr s =
     commit f (destroy_completes f (user_id usr)
       (resolve \<lparr>success = True, message = None\<rparr> (destroy_issued s)))"

text \<open>
  \<^verbatim>\<open>deleteUserById(id)\<close>. The lookup and \<^verbatim>\<open>transaction()\<close> are awaited outside
  the \<^verbatim>\<open>try\<close>: when one of them throws, the returned promise is never settled.
\<close>

definition deleteUserById :: "storage \<Rightarrow> int \<Rightarrow> database \<Rightarrow> state" where
  "deleteUserById f uid d =
     (case getUserById f d uid of
        Inl e \<Rightarrow> log (EvLookup GetUser) (init d)
      | Inr None \<Rightarrow> reject (NotFoundError ''User does not exist'') (log (EvLookup GetUser) (init d))
      | Inr (Some usr) \<Rightarrow>
         (case transaction f (log (EvLookup GetUser) (init d)) of
            Inl (e, s) \<Rightarrow> s
          | Inr s0 \<Rightarrow>
             (case deleteUser_try f usr s0 of
                Inr s \<Rightarrow> s
              | Inl (err, s) \<Rightarrow> rollback f (reject err s))))"

section \<open>Rows per pair, and the data of the spec's example\<close>

definition count_checkins :: "database \<Rightarrow> int \<Rightarrow> int \<Rightarrow> nat" where
  "count_checkins d eventId userId =
     length (filter (\<lambda>c. ci_event_id c = eventId \<and> ci_user_id c = userId) (checkins d))"

text \<open>At most one check-in per (event, user) pair.\<close>

definition at_most_one_checkin :: "database \<Rightarrow> bool" where
  "at_most_one_checkin d = distinct (map (\<lambda>c. (ci_event_id c, ci_user_id c)) (checkins d))"

definition user_exists :: "database \<Rightarrow> int \<Rightarrow> bool" where
  "user_exists d uid = (find (\<lambda>u. user_id u = uid) (users d) \<noteq> None)"

definition event_exists :: "database \<Rightarrow> int \<Rightarrow> bool" where
  "event_exists d eid = (find (\<lambda>e. event_id e = eid) (events d) \<noteq> None)"

text \<open>
  Event 5 is "Hackathon"; user 42 has the email "a@b.com", has checked into event 7 and
  not into event 5.
\<close>

definition example_db :: database where
  "example_db = \<lparr>users = [\<lparr>user_id = 42, user_email = ''a@b.com''\<rparr>],
     events = [\<lparr>event_id = 5, event_name = ''Hackathon''\<rparr>,
               \<lparr>event_id = 7, event_name = ''Workshop''\<rparr>],
     checkins = [\<lparr>ci_event_id = 7, ci_user_id = 42\<rparr>],
     tokens = [\<lparr>token_user_id = 42, token_value = ''t''\<rparr>],
     talks = [\<lparr>talk_speaker_id = 42, talk_name = ''n'', talk_description = ''d''\<rparr>],
     applications = [\<lparr>application_user_id = 42\<rparr>]\<rparr>"

text \<open>
  The error, if any, with which a lookup fails; the errors of the failing lookups in the
  order the lookups complete; and whether the failing lookups, if any, all fail with the
  same error (so in particular when at most one of them fails).
\<close>

definition lookup_error :: "storage \<Rightarrow> lookup \<Rightarrow> string option" where
  "lookup_error f l = (case l of GetUser \<Rightarrow> f_findUser f | GetEvent \<Rightarrow> f_findEvent f
     | GetCheckIn \<Rightarrow> f_findCheckIn f)"

definition lookup_errors :: "storage \<Rightarrow> completion_order \<Rightarrow> string list" where
  "lookup_errors f ord = List.map_filter (lookup_error f) (completion ord)"

definition lookups_agree :: "storage \<Rightarrow> bool" where
  "lookups_agree f = (length (remdups (lookup_errors f UEC)) \<le> 1)"

section \<open>Promise.all\<close>

text \<open>Waiting for the lookups changes nothing but the trace.\<close>

lemma await_all_Inr:
  "await_all rej ls s = Inr s' \<Longrightarrow> s' = s\<lparr>trace := trace s @ map EvLookup ls\<rparr>"
proof (induction ls arbitrary: s)
  case Nil
  then show ?case by simp
next
  case (Cons l ls)
  from Cons.prems have "await_all rej ls (log (EvLookup l) s) = Inr s'"
    by (simp split: option.splits)
  from Cons.IH[OF this] show ?case
    by (simp add: log_def)
qed

lemma await_all_Inl:
  "await_all rej ls s = Inl (e, s') \<Longrightarrow>
     \<exists>seen. s' = s\<lparr>trace := trace s @ map EvLookup seen\<rparr>"
proof (induction ls arbitrary: s)
  case Nil
  then show ?case by simp
next
  case (Cons l ls)
  show ?case
  proof (cases "rej l")
    case None
    with Cons.prems have "await_all rej ls (log (EvLookup l) s) = Inl (e, s')" by simp
    from Cons.IH[OF this] obtain seen where
      "s' = (log (EvLookup l) s)\<lparr>trace := trace (log (EvLookup l) s) @ map EvLookup seen\<rparr>" ..
    then have "s' = s\<lparr>trace := trace s @ map EvLookup (l # seen)\<rparr>"
      by (simp add: log_def)
    then show ?thesis ..
  next
    case (Some x)
    with Cons.prems have "s' = s\<lparr>trace := trace s @ map EvLookup [l]\<rparr>"
      by (simp add: log_def)
    then show ?thesis ..
  qed
qed

lemma promise_all_fulfils:
  "promise_all ord (Inr u) (Inr e) (Inr c) s =
     Inr ((u, e, c), s\<lparr>trace := trace s @ map EvLookup (completion ord)\<rparr>)"
  by (cases ord) (simp_all add: promise_all_def log_def)

lemma promise_all_Inr:
  assumes "promise_all ord ru re rc s = Inr ((u, e, c), s')"
  shows "ru = Inr u \<and> re = Inr e \<and> rc = Inr c
       \<and> s' = s\<lparr>trace := trace s @ map EvLookup (completion ord)\<rparr>"
  using assms
  by (auto simp: promise_all_def split: sum.splits prod.splits dest: await_all_Inr)

lemma promise_all_Inl:
  assumes "promise_all ord ru re rc s = Inl (x, s')"
  shows "\<exists>seen. s' = s\<lparr>trace := trace s @ map EvLookup seen\<rparr>"
proof (cases "await_all (\<lambda>l. case l of GetUser \<Rightarrow> rejection ru | GetEvent \<Rightarrow> rejection re
                                   | GetCheckIn \<Rightarrow> rejection rc) (completion ord) s")
  case (Inl a)
  with assms have "await_all (\<lambda>l. case l of GetUser \<Rightarrow> rejection ru | GetEvent \<Rightarrow> rejection re
                                   | GetCheckIn \<Rightarrow> rejection rc) (completion ord) s = Inl (x, s')"
    by (cases a) (simp add: promise_all_def)
  then show ?thesis by (rule await_all_Inl)
next
  case (Inr b)
  with assms have "s' = b"
    by (auto simp: promise_all_def split: sum.splits)
  with await_all_Inr[OF Inr] have "s' = s\<lparr>trace := trace s @ map EvLookup (completion ord)\<rparr>" by simp
  then show ?thesis ..
qed

section \<open>Steps of a call\<close>

lemma lookups_faultless:
  assumes "faultless f"
  shows "getUserById f d uid = Inr (find (\<lambda>u. user_id u = uid) (users d))"
    and "getEventById f d eid = Inr (find (\<lambda>e. event_id e = eid) (events d))"
    and "getCheckIn f d eid uid =
           Inr (find (\<lambda>c. ci_event_id c = eid \<and> ci_user_id c = uid) (checkins d))"
  using assms by (simp_all add: faultless_def getUserById_def getEventById_def getCheckIn_def)

text \<open>What the try block does once the three lookups have answered.\<close>

lemma checkIn_try_answered:
  assumes "getUserById f (db s) userId = Inr u"
    and "getEventById f (db s) eventId = Inr e"
    and "getCheckIn f (db s) eventId userId = Inr c"
  shows "checkIn_try f ord eventId userId s =
     (let s1 = s\<lparr>trace := trace s @ map EvLookup (completion ord)\<rparr> in
      case u of
        None \<Rightarrow> Inl (NotFoundError ''Unable to check-in because user does not exist'', s1)
      | Some usr \<Rightarrow>
     (case e of
        None \<Rightarrow> Inl (NotFoundError ''Unable to check-in because event does not exist'', s1)
      | Some ev \<Rightarrow>
     (case c of
        None \<Rightarrow>
          (case create f \<lparr>ci_event_id = eventId, ci_user_id = userId\<rparr> s1 of
             Inl (x, s2) \<Rightarrow> Inl (x, s2)
           | Inr s2 \<Rightarrow>
              (case commit f (resolve \<lparr>success = True,
                      message = Some (user_email usr @ '' checked into '' @ event_name ev @ ''!'')\<rparr> s2) of
                 Inl (x, s3) \<Rightarrow> Inl (x, s3)
               | Inr s3 \<Rightarrow> Inr (resolve \<lparr>success = False,
                      message = Some (user_email usr @ '' has already checked into '' @ event_name ev)\<rparr> s3)))
      | Some x \<Rightarrow> Inr (resolve \<lparr>success = False,
                      message = Some (user_email usr @ '' has already checked into '' @ event_name ev)\<rparr> s1))))"
  by (simp add: checkIn_try_def assms promise_all_fulfils Let_def)

lemma transaction_faultless:
  "f_transaction f = None \<Longrightarrow>
     transaction f (init d) = Inr \<lparr>db = d, txn_status = Open, pending = [], promise = Pending, trace = [EvBegin]\<rparr>"
  by (simp add: transaction_def init_def log_def)


lemma rollback_fields:
  "db (rollback f s) = db s"
  "promise (rollback f s) = promise s"
  "trace (rollback f s) = trace s @ [EvRollback]"
  "txn_status (rollback f s) = (if f_rollback f = None then RolledBack else txn_status s)"
  "pending (rollback f s) = (if f_rollback f = None then [] else pending s)"
  by (simp_all add: rollback_def log_def Let_def split: option.splits)

lemma reject_fields:
  "db (reject e s) = db s"
  "promise (reject e s) = (if promise s = Pending then Rejected e else promise s)"
  "trace (reject e s) = (if promise s = Pending then trace s @ [EvSettled (Rejected e)] else trace s)"
  "txn_status (reject e s) = txn_status s"
  "pending (reject e s) = pending s"
  by (simp_all add: reject_def log_def)

lemma resolve_fields:
  "db (resolve v s) = db s"
  "promise (resolve v s) = (if promise s = Pending then Resolved v else promise s)"
  "trace (resolve v s) = (if promise s = Pending then trace s @ [EvSettled (Resolved v)] else trace s)"
  "txn_status (resolve v s) = txn_status s"
  "pending (resolve v s) = pending s"
  by (simp_all add: resolve_def log_def)

lemma create_fields:
  "create f c s = Inr s' \<Longrightarrow> s' = s\<lparr>trace := trace s @ [EvCreate], pending := pending s @ [InsertCheckIn c]\<rparr>"
  "create f c s = Inl (x, s') \<Longrightarrow> s' = s\<lparr>trace := trace s @ [EvCreate]\<rparr> \<and> f_create f \<noteq> None"
  by (auto simp: create_def log_def Let_def split: option.splits)

lemma commit_Inl:
  "commit f s = Inl (x, s') \<Longrightarrow> EvCommit \<in> set (trace s')"
  by (auto simp: commit_def log_def Let_def split: option.splits)

text \<open>An error that leaves the try block before the commit leaves the promise pending.\<close>

lemma checkIn_try_throws:
  assumes "checkIn_try f ord eventId userId s = Inl (err, s1)"
    and "EvCommit \<notin> set (trace s1)"
  shows "db s1 = db s \<and> promise s1 = promise s \<and> txn_status s1 = txn_status s"
proof (cases "promise_all ord (getUserById f (db s) userId) (getEventById f (db s) eventId)
             (getCheckIn f (db s) eventId userId) s")
  case (Inl a)
  obtain x s' where a: "a = (x, s')" by (cases a)
  from promise_all_Inl[OF Inl[unfolded a]] obtain seen where
    "s' = s\<lparr>trace := trace s @ map EvLookup seen\<rparr>" ..
  moreover from assms(1) Inl a have "s1 = s'" by (simp add: checkIn_try_def)
  ultimately show ?thesis by simp
next
  case (Inr b)
  obtain u e c s' where b: "b = ((u, e, c), s')" by (cases b) auto
  from promise_all_Inr[OF Inr[unfolded b]]
  have s': "s' = s\<lparr>trace := trace s @ map EvLookup (completion ord)\<rparr>" by simp
  show ?thesis
    using assms Inr b s'
    by (auto simp: checkIn_try_def split: option.splits sum.splits dest: create_fields commit_Inl)
qed

lemma count_zero_find: "count_checkins d e u = 0 \<longleftrightarrow>
   find (\<lambda>c. ci_event_id c = e \<and> ci_user_id c = u) (checkins d) = None"
  by (auto simp: count_checkins_def find_None_iff filter_empty_conv)

lemma commit_faultless:
  "f_commit f = None \<Longrightarrow> commit f s = Inr (s\<lparr>trace := trace s @ [EvCommit],
      db := foldl apply_write (db s) (pending s), pending := [], txn_status := Committed\<rparr>)"
  by (simp add: commit_def log_def Let_def)

lemma create_faultless:
  "f_create f = None \<Longrightarrow> create f c s = Inr (s\<lparr>trace := trace s @ [EvCreate],
      pending := pending s @ [InsertCheckIn c]\<rparr>)"
  by (simp add: create_def log_def Let_def)

lemma transaction_cases:
  "transaction f (init d) = (case f_transaction f of
      Some m \<Rightarrow> Inl (StorageError m, \<lparr>db = d, txn_status = NotStarted, pending = [], promise = Pending, trace = [EvBegin]\<rparr>)
    | None \<Rightarrow> Inr \<lparr>db = d, txn_status = Open, pending = [], promise = Pending, trace = [EvBegin]\<rparr>)"
  by (simp add: transaction_def init_def log_def Let_def split: option.splits)

text \<open>The database after the try block: unchanged, or one row more for a pair that had none.\<close>

lemma checkIn_try_db:
  assumes "checkIn_try f ord eventId userId s = Inr s1" and "pending s = []"
  shows "db s1 = db s \<or>
     (db s1 = (db s)\<lparr>checkins := checkins (db s) @ [\<lparr>ci_event_id = eventId, ci_user_id = userId\<rparr>]\<rparr>
      \<and> find (\<lambda>c. ci_event_id c = eventId \<and> ci_user_id c = userId) (checkins (db s)) = None)"
proof (cases "promise_all ord (getUserById f (db s) userId) (getEventById f (db s) eventId)
             (getCheckIn f (db s) eventId userId) s")
  case (Inl a)
  with assms(1) show ?thesis by (cases a) (simp add: checkIn_try_def)
next
  case (Inr b)
  obtain u e c s' where b: "b = ((u, e, c), s')" by (cases b) auto
  from promise_all_Inr[OF Inr[unfolded b]]
  have s': "s' = s\<lparr>trace := trace s @ map EvLookup (completion ord)\<rparr>"
    and c: "getCheckIn f (db s) eventId userId = Inr c" by simp_all
  from c have c': "c = find (\<lambda>c. ci_event_id c = eventId \<and> ci_user_id c = userId) (checkins (db s))"
    by (auto simp: getCheckIn_def split: option.splits)
  show ?thesis
    using assms Inr b s' c'
    by (auto simp: checkIn_try_def resolve_fields commit_def Let_def log_def resolve_def
         split: option.splits sum.splits dest!: create_fields(1))
qed

lemma checkIn_try_Inl_db:
  assumes "checkIn_try f ord eventId userId s = Inl (x, s1)"
  shows "db s1 = db s"
proof (cases "promise_all ord (getUserById f (db s) userId) (getEventById f (db s) eventId)
             (getCheckIn f (db s) eventId userId) s")
  case (Inl a)
  obtain y s' where a: "a = (y, s')" by (cases a)
  from promise_all_Inl[OF Inl[unfolded a]] obtain seen where
    "s' = s\<lparr>trace := trace s @ map EvLookup seen\<rparr>" ..
  moreover from assms(1) Inl a have "s1 = s'" by (simp add: checkIn_try_def)
  ultimately show ?thesis by simp
next
  case (Inr b)
  obtain u e c s' where b: "b = ((u, e, c), s')" by (cases b) auto
  from promise_all_Inr[OF Inr[unfolded b]]
  have s': "s' = s\<lparr>trace := trace s @ map EvLookup (completion ord)\<rparr>" by simp
  show ?thesis
    using assms Inr b s'
    by (auto simp: checkIn_try_def resolve_fields commit_def Let_def log_def resolve_def
         split: option.splits sum.splits dest!: create_fields)
qed

lemma checkInToEvent_db:
  "db (checkInToEvent f ord eventId userId d) = d \<or>
     (db (checkInToEvent f ord eventId userId d) =
        d\<lparr>checkins := checkins d @ [\<lparr>ci_event_id = eventId, ci_user_id = userId\<rparr>]\<rparr>
      \<and> find (\<lambda>c. ci_event_id c = eventId \<and> ci_user_id c = userId) (checkins d) = None)"
proof (cases "f_transaction f")
  case (Some m)
  then show ?thesis by (simp add: checkInToEvent_def transaction_cases)
next
  case None
  let ?s0 = "\<lparr>db = d, txn_status = Open, pending = [], promise = Pending, trace = [EvBegin]\<rparr>"
  show ?thesis
  proof (cases "checkIn_try f ord eventId userId ?s0")
    case (Inl a)
    obtain x s1 where a: "a = (x, s1)" by (cases a)
    from checkIn_try_Inl_db[OF Inl[unfolded a]] have "db s1 = d" by simp
    with None Inl a show ?thesis
      by (simp add: checkInToEvent_def transaction_cases rollback_fields reject_fields)
  next
    case (Inr s1)
    from checkIn_try_db[OF Inr] None Inr show ?thesis
      by (simp add: checkInToEvent_def transaction_cases)
  qed
qed

lemma at_most_one_insert:
  assumes "at_most_one_checkin d"
    and "find (\<lambda>c. ci_event_id c = e \<and> ci_user_id c = u) (checkins d) = None"
  shows "at_most_one_checkin (d\<lparr>checkins := checkins d @ [\<lparr>ci_event_id = e, ci_user_id = u\<rparr>]\<rparr>)"
  using assms by (auto simp: at_most_one_checkin_def find_None_iff)

lemma at_most_one_destroy:
  "at_most_one_checkin d \<Longrightarrow> at_most_one_checkin (destroy_user uid d)"
  by (simp add: at_most_one_checkin_def destroy_user_def distinct_map_filter)

lemma at_most_one_count:
  assumes "at_most_one_checkin d"
  shows "count_checkins d e u \<le> 1"
proof -
  have "distinct (map (\<lambda>c. (ci_event_id c, ci_user_id c)) xs) \<Longrightarrow>
        length (filter (\<lambda>c. ci_event_id c = e \<and> ci_user_id c = u) xs) \<le> 1" for xs
    by (induction xs) (auto simp: filter_empty_conv image_iff)
  with assms show ?thesis by (simp add: at_most_one_checkin_def count_checkins_def)
qed

lemma checkInToEvent_invariant:
  "at_most_one_checkin d \<Longrightarrow> at_most_one_checkin (db (checkInToEvent f ord eventId userId d))"
  using checkInToEvent_db[of f ord eventId userId d] by (auto intro: at_most_one_insert)

lemma deleteUser_try_cases:
  "deleteUser_try f usr \<lparr>db = d, txn_status = Open, pending = [], promise = Pending, trace = tr\<rparr> =
     commit f (destroy_completes f (user_id usr)
       \<lparr>db = d, txn_status = Open, pending = [], promise = Resolved \<lparr>success = True, message = None\<rparr>,
        trace = tr @ [EvDestroyIssued, EvSettled (Resolved \<lparr>success = True, message = None\<rparr>)]\<rparr>)"
  by (simp add: deleteUser_try_def destroy_issued_def resolve_def log_def)

text \<open>Once the user is found and the transaction open, the promise is resolved with success.\<close>

lemma deleteUserById_found:
  assumes "getUserById f d uid = Inr (Some usr)" and "f_transaction f = None"
  shows "promise (deleteUserById f uid d) = Resolved \<lparr>success = True, message = None\<rparr>"
    and "f_destroy f = None \<Longrightarrow> f_commit f = None \<Longrightarrow> db (deleteUserById f uid d) = destroy_user (user_id usr) d"
    and "db (deleteUserById f uid d) = d \<or> db (deleteUserById f uid d) = destroy_user (user_id usr) d"
  using assms
  by (auto simp: deleteUserById_def transaction_def init_def log_def Let_def deleteUser_try_cases
       destroy_completes_def commit_def rollback_fields reject_fields split: option.splits)

lemma find_user_id: "find (\<lambda>u. user_id u = uid) xs = Some usr \<Longrightarrow> user_id usr = uid"
  by (auto simp: find_Some_iff)

lemma deleteUserById_db:
  "db (deleteUserById f uid d) = d \<or> db (deleteUserById f uid d) = destroy_user uid d"
proof (cases "getUserById f d uid")
  case (Inl a)
  then show ?thesis by (simp add: deleteUserById_def log_def init_def)
next
  case (Inr r)
  show ?thesis
  proof (cases r)
    case None
    with Inr show ?thesis by (simp add: deleteUserById_def log_def init_def reject_fields)
  next
    case (Some usr)
    from Inr Some have "user_id usr = uid"
      by (auto simp: getUserById_def split: option.splits dest: find_user_id)
    show ?thesis
    proof (cases "f_transaction f")
      case None
      from deleteUserById_found(3)[OF Inr[unfolded Some] None] \<open>user_id usr = uid\<close>
      show ?thesis by simp
    next
      case (Some m)
      with Inr \<open>r = Some usr\<close> show ?thesis
        by (simp add: deleteUserById_def transaction_def log_def init_def Let_def)
    qed
  qed
qed

lemma deleteUserById_invariant:
  "at_most_one_checkin d \<Longrightarrow> at_most_one_checkin (db (deleteUserById f uid d))"
  using deleteUserById_db[of f uid d] by (auto intro: at_most_one_destroy)

text \<open>A call on a working storage, for a user and an event that exist.\<close>

lemma checkIn_faultless:
  assumes "faultless f"
    and "find (\<lambda>x. user_id x = userId) (users d) = Some u"
    and "find (\<lambda>x. event_id x = eventId) (events d) = Some ev"
  shows "promise (checkInToEvent f ord eventId userId d) =
           (if count_checkins d eventId userId = 0
            then Resolved \<lparr>success = True,
                   message = Some (user_email u @ '' checked into '' @ event_name ev @ ''!'')\<rparr>
            else Resolved \<lparr>success = False,
                   message = Some (user_email u @ '' has already checked into '' @ event_name ev)\<rparr>)"
    and "db (checkInToEvent f ord eventId userId d) =
           (if count_checkins d eventId userId = 0
            then d\<lparr>checkins := checkins d @ [\<lparr>ci_event_id = eventId, ci_user_id = userId\<rparr>]\<rparr>
            else d)"
proof -
  have t: "transaction f (init d) = Inr \<lparr>db = d, txn_status = Open, pending = [], promise = Pending, trace = [EvBegin]\<rparr>"
    using assms(1) by (simp add: transaction_faultless faultless_def)
  have fc: "f_create f = None" "f_commit f = None" using assms(1) by (simp_all add: faultless_def)
  show "promise (checkInToEvent f ord eventId userId d) =
           (if count_checkins d eventId userId = 0
            then Resolved \<lparr>success = True,
                   message = Some (user_email u @ '' checked into '' @ event_name ev @ ''!'')\<rparr>
            else Resolved \<lparr>success = False,
                   message = Some (user_email u @ '' has already checked into '' @ event_name ev)\<rparr>)"
    using assms(2,3)
    by (auto simp: checkInToEvent_def t checkIn_try_answered lookups_faultless[OF assms(1)]
         create_faultless[OF fc(1)] commit_faultless[OF fc(2)] resolve_fields resolve_def log_def
         count_zero_find split: option.splits)
  show "db (checkInToEvent f ord eventId userId d) =
           (if count_checkins d eventId userId = 0
            then d\<lparr>checkins := checkins d @ [\<lparr>ci_event_id = eventId, ci_user_id = userId\<rparr>]\<rparr>
            else d)"
    using assms(2,3)
    by (auto simp: checkInToEvent_def t checkIn_try_answered lookups_faultless[OF assms(1)]
         create_faultless[OF fc(1)] commit_faultless[OF fc(2)] resolve_fields resolve_def log_def
         count_zero_find split: option.splits)
qed

lemma promise_all_rejects:
  assumes "lookup_errors f ord = m # ms"
  shows "\<exists>s'. promise_all ord (getUserById f d userId) (getEventById f d eventId)
            (getCheckIn f d eventId userId) s = Inl (StorageError m, s')"
  using assms
  by (cases ord; cases "f_findUser f"; cases "f_findEvent f"; cases "f_findCheckIn f")
     (simp_all add: promise_all_def getUserById_def getEventById_def getCheckIn_def
        lookup_errors_def lookup_error_def List.map_filter_simps)

lemma lookup_errors_Nil:
  "lookup_errors f ord = [] \<longleftrightarrow> f_findUser f = None \<and> f_findEvent f = None \<and> f_findCheckIn f = None"
  by (cases ord; cases "f_findUser f"; cases "f_findEvent f"; cases "f_findCheckIn f")
     (simp_all add: lookup_errors_def lookup_error_def List.map_filter_simps)

lemma lookup_errors_set:
  "set (lookup_errors f ord) = set (lookup_errors f UEC)"
  by (cases ord) (auto simp: lookup_errors_def lookup_error_def List.map_filter_def)

lemma lookups_agree_same:
  assumes "lookups_agree f" and "x \<in> set (lookup_errors f UEC)" and "y \<in> set (lookup_errors f UEC)"
  shows "x = y"
proof -
  have "card (set (lookup_errors f UEC)) \<le> 1"
    using assms(1) by (simp add: lookups_agree_def length_remdups_card_conv)
  then have "\<forall>a\<in>set (lookup_errors f UEC). \<forall>b\<in>set (lookup_errors f UEC). a = b"
    by (simp add: card_le_Suc0_iff_eq)
  with assms(2,3) show ?thesis by blast
qed

text \<open>A failing lookup: the caller gets the error of the first lookup that fails.\<close>

lemma checkIn_lookup_fails:
  assumes "f_transaction f = None" and "lookup_errors f ord = m # ms"
  shows "promise (checkInToEvent f ord eventId userId d) = Rejected (StorageError m)"
    and "db (checkInToEvent f ord eventId userId d) = d"
    and "txn_status (checkInToEvent f ord eventId userId d) =
           (if f_rollback f = None then RolledBack else Open)"
proof -
  let ?s0 = "\<lparr>db = d, txn_status = Open, pending = [], promise = Pending, trace = [EvBegin]\<rparr>"
  from promise_all_rejects[OF assms(2)] obtain s' where
    pa: "promise_all ord (getUserById f d userId) (getEventById f d eventId)
            (getCheckIn f d eventId userId) ?s0 = Inl (StorageError m, s')" by blast
  from promise_all_Inl[OF pa] obtain seen where s': "s' = ?s0\<lparr>trace := trace ?s0 @ map EvLookup seen\<rparr>" ..
  have t: "checkIn_try f ord eventId userId ?s0 = Inl (StorageError m, s')"
    by (simp add: checkIn_try_def pa)
  show "promise (checkInToEvent f ord eventId userId d) = Rejected (StorageError m)"
    and "db (checkInToEvent f ord eventId userId d) = d"
    and "txn_status (checkInToEvent f ord eventId userId d) =
           (if f_rollback f = None then RolledBack else Open)"
    by (simp_all add: checkInToEvent_def transaction_faultless[OF assms(1)] t s'
          rollback_fields reject_fields)
qed

text \<open>When the lookups answer, only the trace remembers the order.\<close>

lemma checkIn_answered_order:
  assumes "lookup_errors f UEC = []"
  shows "promise (checkInToEvent f o1 eventId userId d) = promise (checkInToEvent f o2 eventId userId d)"
    and "db (checkInToEvent f o1 eventId userId d) = db (checkInToEvent f o2 eventId userId d)"
    and "txn_status (checkInToEvent f o1 eventId userId d) = txn_status (checkInToEvent f o2 eventId userId d)"
proof -
  from assms have n: "f_findUser f = None" "f_findEvent f = None" "f_findCheckIn f = None"
    by (simp_all add: lookup_errors_Nil)
  have l: "getUserById f d userId = Inr (find (\<lambda>u. user_id u = userId) (users d))"
    "getEventById f d eventId = Inr (find (\<lambda>e. event_id e = eventId) (events d))"
    "getCheckIn f d eventId userId =
           Inr (find (\<lambda>c. ci_event_id c = eventId \<and> ci_user_id c = userId) (checkins d))"
    using n by (simp_all add: getUserById_def getEventById_def getCheckIn_def)
  show "promise (checkInToEvent f o1 eventId userId d) = promise (checkInToEvent f o2 eventId userId d)"
    by (simp add: checkInToEvent_def transaction_cases checkIn_try_answered l Let_def
         create_def commit_def log_def resolve_def rollback_fields reject_fields
         split: option.splits)
  show "db (checkInToEvent f o1 eventId userId d) = db (checkInToEvent f o2 eventId userId d)"
    by (simp add: checkInToEvent_def transaction_cases checkIn_try_answered l Let_def
         create_def commit_def log_def resolve_def rollback_fields reject_fields
         split: option.splits)
  show "txn_status (checkInToEvent f o1 eventId userId d) = txn_status (checkInToEvent f o2 eventId userId d)"
    by (auto simp: checkInToEvent_def transaction_cases checkIn_try_answered l Let_def
         create_def commit_def log_def resolve_def rollback_fields reject_fields
         split: option.splits)
qed

text \<open>The two parts, run one after the other, are the call.\<close>

lemma checkIn_in_two_parts:
  "checkIn_finish f (checkIn_until_settled f ord eventId userId d) = checkInToEvent f ord eventId userId d"
  by (simp add: checkIn_finish_def checkIn_until_settled_def checkInToEvent_def checkIn_try_def
        split: sum.splits prod.splits option.splits)

text \<open>The definitions a run on concrete data unfolds.\<close>

lemmas run_defs = checkInToEvent_def checkIn_try_def promise_all_def transaction_def init_def
  log_def getUserById_def getEventById_def getCheckIn_def create_def commit_def resolve_def
  reject_def rollback_def deleteUserById_def deleteUser_try_def destroy_issued_def
  destroy_completes_def destroy_user_def reliable_def example_db_def count_checkins_def

section \<open>The check-in operation\<close>

text \<open>
  \<open>checkInToEvent f ord eventId userId d\<close> is one call, run on \<open>d\<close> until its
  executor has finished. \<open>faultless f\<close> says that the storage carries out every
  operation of the call.
\<close>

text \<open>
  Claim C1. When the user and the event exist and the pair has no check-in, the call
  resolves with \<^verbatim>\<open>{success: true, message: "<email> checked into <event>!"}\<close> and
  adds exactly one row for the pair: the table is the old one with that row appended,
  and the pair now has one row.
\<close>

theorem checkIn_fresh:
  assumes "faultless f"
    and "find (\<lambda>x. user_id x = userId) (users d) = Some u"
    and "find (\<lambda>x. event_id x = eventId) (events d) = Some ev"
    and "count_checkins d eventId userId = 0"
  shows "promise (checkInToEvent f ord eventId userId d) =
           Resolved \<lparr>success = True,
             message = Some (user_email u @ '' checked into '' @ event_name ev @ ''!'')\<rparr>
       \<and> db (checkInToEvent f ord eventId userId d) =
           d\<lparr>checkins := checkins d @ [\<lparr>ci_event_id = eventId, ci_user_id = userId\<rparr>]\<rparr>
       \<and> count_checkins (db (checkInToEvent f ord eventId userId d)) eventId userId = 1"
proof -
  from assms(4) have nf: "find (\<lambda>c. ci_event_id c = eventId \<and> ci_user_id c = userId) (checkins d) = None"
    by (simp add: count_zero_find)
  have c0: "filter (\<lambda>c. ci_event_id c = eventId \<and> ci_user_id c = userId) (checkins d) = []"
    using assms(4) by (simp add: count_checkins_def)
  have t: "transaction f (init d) = Inr \<lparr>db = d, txn_status = Open, pending = [], promise = Pending, trace = [EvBegin]\<rparr>"
    using assms(1) by (simp add: transaction_faultless faultless_def)
  have fc: "f_create f = None" "f_commit f = None" using assms(1) by (simp_all add: faultless_def)
  show ?thesis
    using assms(2,3) nf c0
    by (simp add: checkInToEvent_def t checkIn_try_answered lookups_faultless[OF assms(1)]
         create_faultless[OF fc(1)] commit_faultless[OF fc(2)] resolve_fields resolve_def log_def
         count_checkins_def)
qed

theorem checkIn_fresh_witness:
  "faultless reliable
   \<and> find (\<lambda>x. user_id x = 42) (users example_db) = Some \<lparr>user_id = 42, user_email = ''a@b.com''\<rparr>
   \<and> find (\<lambda>x. event_id x = 5) (events example_db) = Some \<lparr>event_id = 5, event_name = ''Hackathon''\<rparr>
   \<and> count_checkins example_db 5 42 = 0
   \<and> promise (checkInToEvent reliable UEC 5 42 example_db) =
        Resolved \<lparr>success = True, message = Some ''a@b.com checked into Hackathon!''\<rparr>
   \<and> count_checkins (db (checkInToEvent reliable UEC 5 42 example_db)) 5 42 = 1"
proof -
  have h1: "faultless reliable" by (simp add: faultless_def reliable_def)
  have h2: "find (\<lambda>x. user_id x = 42) (users example_db) = Some \<lparr>user_id = 42, user_email = ''a@b.com''\<rparr>"
    by (simp add: example_db_def)
  have h3: "find (\<lambda>x. event_id x = 5) (events example_db) = Some \<lparr>event_id = 5, event_name = ''Hackathon''\<rparr>"
    by (simp add: example_db_def)
  have h4: "count_checkins example_db 5 42 = 0"
    by (simp add: count_checkins_def example_db_def)
  note r = checkIn_fresh[OF h1 h2 h3 h4, of UEC]
  from conjunct1[OF r] conjunct2[OF conjunct2[OF r]] h1 h2 h3 h4 show ?thesis by simp
qed

text \<open>
  Two calls in turn, the second started once the first has committed: on a working
  storage and a database with at most one check-in per pair, they leave exactly one row
  for the pair and the second call resolves with
  \<^verbatim>\<open>{success: false, message: "<email> has already checked into <event>"}\<close>. A
  call that runs alone, whatever the storage does, keeps at most one check-in per pair.
\<close>

lemma checkIn_twice_in_turn:
  assumes "faultless f1" and "faultless f2"
    and "find (\<lambda>x. user_id x = userId) (users d) = Some u"
    and "find (\<lambda>x. event_id x = eventId) (events d) = Some ev"
    and "at_most_one_checkin d"
  shows "count_checkins (db (checkInToEvent f2 o2 eventId userId
             (db (checkInToEvent f1 o1 eventId userId d)))) eventId userId = 1
       \<and> promise (checkInToEvent f2 o2 eventId userId (db (checkInToEvent f1 o1 eventId userId d))) =
           Resolved \<lparr>success = False,
             message = Some (user_email u @ '' has already checked into '' @ event_name ev)\<rparr>
       \<and> (\<forall>g ord e' u'. at_most_one_checkin (db (checkInToEvent g ord e' u' d)))
       \<and> (\<forall>g uid. at_most_one_checkin (db (deleteUserById g uid d)))"
proof -
  let ?d1 = "db (checkInToEvent f1 o1 eventId userId d)"
  have d1: "?d1 = (if count_checkins d eventId userId = 0
            then d\<lparr>checkins := checkins d @ [\<lparr>ci_event_id = eventId, ci_user_id = userId\<rparr>]\<rparr>
            else d)"
    by (rule checkIn_faultless(2)[OF assms(1,3,4)])
  have le: "count_checkins d eventId userId \<le> 1" by (rule at_most_one_count[OF assms(5)])
  have c1: "count_checkins ?d1 eventId userId = 1"
  proof (cases "count_checkins d eventId userId = 0")
    case True
    then have "filter (\<lambda>c. ci_event_id c = eventId \<and> ci_user_id c = userId) (checkins d) = []"
      by (simp add: count_checkins_def)
    with True show ?thesis by (simp add: d1 count_checkins_def)
  next
    case False
    with le show ?thesis by (simp add: d1)
  qed
  have u1: "find (\<lambda>x. user_id x = userId) (users ?d1) = Some u"
    and e1: "find (\<lambda>x. event_id x = eventId) (events ?d1) = Some ev"
    using assms(3,4) by (simp_all add: d1)
  from checkIn_faultless[OF assms(2) u1 e1, of o2] c1
  have "count_checkins (db (checkInToEvent f2 o2 eventId userId ?d1)) eventId userId = 1"
    and "promise (checkInToEvent f2 o2 eventId userId ?d1) =
           Resolved \<lparr>success = False,
             message = Some (user_email u @ '' has already checked into '' @ event_name ev)\<rparr>"
    by simp_all
  moreover have "\<forall>g ord e' u'. at_most_one_checkin (db (checkInToEvent g ord e' u' d))"
    using assms(5) by (simp add: checkInToEvent_invariant)
  moreover have "\<forall>g uid. at_most_one_checkin (db (deleteUserById g uid d))"
    using assms(5) by (simp add: deleteUserById_invariant)
  ultimately show ?thesis by simp
qed

text \<open>
  Claim C2 asks that two calls for the same pair leave exactly one row, the second
  returning \<^verbatim>\<open>success: false\<close>, so that there is never more than one check-in per
  pair. The first call hands over its result before it commits. Here the caller awaits
  \<^verbatim>\<open>checkInToEvent(5, 42)\<close> and calls again at once: the lookups of the second call
  are answered before the first commit, find no check-in, and the second call inserts
  too. Both calls resolve with \<^verbatim>\<open>success: true\<close> and the pair ends with two rows.
\<close>

theorem checkIn_twice_duplicates:
  "at_most_one_checkin example_db
   \<and> promise (fst (checkIn_again_on_result reliable UEC reliable UEC 5 42 example_db)) =
        Resolved \<lparr>success = True, message = Some ''a@b.com checked into Hackathon!''\<rparr>
   \<and> promise (snd (checkIn_again_on_result reliable UEC reliable UEC 5 42 example_db)) =
        Resolved \<lparr>success = True, message = Some ''a@b.com checked into Hackathon!''\<rparr>
   \<and> count_checkins (db (snd (checkIn_again_on_result reliable UEC reliable UEC 5 42 example_db))) 5 42 = 2
   \<and> \<not> at_most_one_checkin (db (snd (checkIn_again_on_result reliable UEC reliable UEC 5 42 example_db)))"
  by (simp add: checkIn_again_on_result_def checkIn_until_settled_def checkIn_finish_def
        at_most_one_checkin_def run_defs)

text \<open>
  Claim C3. When the user does not exist, or the event does not exist, the call is
  rejected with a NotFoundError and the database is the one it started on: no row is
  created.
\<close>

theorem checkIn_not_found:
  assumes "faultless f"
    and "\<not> user_exists d userId \<or> \<not> event_exists d eventId"
  shows "promise (checkInToEvent f ord eventId userId d) =
           Rejected (NotFoundError (if user_exists d userId
              then ''Unable to check-in because event does not exist''
              else ''Unable to check-in because user does not exist''))
       \<and> db (checkInToEvent f ord eventId userId d) = d"
proof -
  have t: "transaction f (init d) = Inr \<lparr>db = d, txn_status = Open, pending = [], promise = Pending, trace = [EvBegin]\<rparr>"
    using assms(1) by (simp add: transaction_faultless faultless_def)
  show ?thesis
    using assms(2)
    by (auto simp: checkInToEvent_def t checkIn_try_answered lookups_faultless[OF assms(1)]
         user_exists_def event_exists_def rollback_fields reject_fields
        split: option.splits)
qed

theorem checkIn_not_found_witness:
  "faultless reliable
   \<and> user_exists example_db 42 \<and> \<not> event_exists example_db 6
   \<and> promise (checkInToEvent reliable UEC 6 42 example_db) =
        Rejected (NotFoundError ''Unable to check-in because event does not exist'')
   \<and> db (checkInToEvent reliable UEC 6 42 example_db) = example_db"
proof -
  have h1: "faultless reliable" by (simp add: faultless_def reliable_def)
  have h2: "\<not> user_exists example_db 42 \<or> \<not> event_exists example_db 6"
    by (simp add: event_exists_def example_db_def)
  have h3: "user_exists example_db 42"
    by (simp add: user_exists_def example_db_def)
  have h4: "\<not> event_exists example_db 6"
    by (simp add: event_exists_def example_db_def)
  from checkIn_not_found[OF h1 h2, of UEC] h1 h3 h4 show ?thesis by simp
qed

text \<open>
  An error that leaves the \<^verbatim>\<open>try\<close> block before the commit (a NotFoundError, or a
  storage error of a lookup or of the insert) is the error the caller gets;
  \<^verbatim>\<open>rollback\<close> is called, which closes the transaction unless the rollback itself
  fails; and the database is the one the call started on.
\<close>

lemma checkIn_error_in_try:
  assumes "transaction f (init d) = Inr s0"
    and "checkIn_try f ord eventId userId s0 = Inl (err, s1)"
    and "EvCommit \<notin> set (trace s1)"
  shows "promise (checkInToEvent f ord eventId userId d) = Rejected err
       \<and> db (checkInToEvent f ord eventId userId d) = d
       \<and> EvRollback \<in> set (trace (checkInToEvent f ord eventId userId d))
       \<and> (f_rollback f = None \<longrightarrow>
            txn_status (checkInToEvent f ord eventId userId d) = RolledBack
          \<and> pending (checkInToEvent f ord eventId userId d) = [])"
proof -
  from assms(1) have s0: "db s0 = d" "promise s0 = Pending"
    by (auto simp: transaction_def init_def log_def Let_def split: option.splits)
  from checkIn_try_throws[OF assms(2,3)] s0 have "db s1 = d" "promise s1 = Pending" by simp_all
  then show ?thesis
    by (simp add: checkInToEvent_def assms(1,2) rollback_fields reject_fields)
qed

text \<open>
  Claim C8 asks that every error raised in the call before the commit be re-thrown to
  the caller, with the transaction rolled back. The \<^verbatim>\<open>catch\<close> block does so for the
  errors of the \<^verbatim>\<open>try\<close> block. The error of \<^verbatim>\<open>transaction()\<close> is raised before
  the \<^verbatim>\<open>try\<close>: here the storage cannot open a transaction, the only step of
  \<^verbatim>\<open>checkInToEvent(5, 42)\<close> is that attempt, and the promise stays pending: the
  caller never gets the error.
\<close>

theorem checkIn_transaction_error_not_rethrown:
  "promise (checkInToEvent (reliable\<lparr>f_transaction := Some ''no connection''\<rparr>) UEC 5 42 example_db) =
     Pending
   \<and> trace (checkInToEvent (reliable\<lparr>f_transaction := Some ''no connection''\<rparr>) UEC 5 42 example_db) =
     [EvBegin]"
  by (simp add: run_defs)

text \<open>
  Claim C10. When neither the user nor the event exists, the call is rejected with the
  NotFoundError that names the user: the user is checked first.
\<close>

theorem checkIn_user_first:
  assumes "faultless f"
    and "\<not> user_exists d userId" and "\<not> event_exists d eventId"
  shows "promise (checkInToEvent f ord eventId userId d) =
           Rejected (NotFoundError ''Unable to check-in because user does not exist'')"
proof -
  have t: "transaction f (init d) = Inr \<lparr>db = d, txn_status = Open, pending = [], promise = Pending, trace = [EvBegin]\<rparr>"
    using assms(1) by (simp add: transaction_faultless faultless_def)
  show ?thesis
    using assms(2)
    by (simp add: checkInToEvent_def t checkIn_try_answered lookups_faultless[OF assms(1)]
         user_exists_def rollback_fields reject_fields)
qed

theorem checkIn_user_first_witness:
  "faultless reliable \<and> \<not> user_exists example_db 43 \<and> \<not> event_exists example_db 6
   \<and> promise (checkInToEvent reliable ECU 6 43 example_db) =
        Rejected (NotFoundError ''Unable to check-in because user does not exist'')"
proof -
  have h1: "faultless reliable" by (simp add: faultless_def reliable_def)
  have h2: "\<not> user_exists example_db 43" by (simp add: user_exists_def example_db_def)
  have h3: "\<not> event_exists example_db 6" by (simp add: event_exists_def example_db_def)
  from checkIn_user_first[OF h1 h2 h3, of ECU] h1 h2 h3 show ?thesis by simp
qed

text \<open>
  Claim C9, as amended. The values of the three lookups reach the branching code only
  once all three have completed. The database and the state of the transaction at the
  end of the call are the same for every order in which the lookups complete. So is the
  result, when the lookups that fail (if any) fail with the same error, in particular
  when none or one of them fails. When lookups fail, the caller gets the error of the one
  that completes first.
\<close>

theorem checkIn_lookup_order:
  "db (checkInToEvent f o1 eventId userId d) = db (checkInToEvent f o2 eventId userId d)
   \<and> txn_status (checkInToEvent f o1 eventId userId d) = txn_status (checkInToEvent f o2 eventId userId d)
   \<and> (lookups_agree f \<longrightarrow>
        promise (checkInToEvent f o1 eventId userId d) = promise (checkInToEvent f o2 eventId userId d))
   \<and> (f_transaction f = None \<and> lookup_errors f o1 \<noteq> [] \<longrightarrow>
        promise (checkInToEvent f o1 eventId userId d) = Rejected (StorageError (hd (lookup_errors f o1))))
   \<and> (\<forall>ru re rc s v s'. promise_all o1 ru re rc s = Inr (v, s') \<longrightarrow>
        set (completion o1) = {GetUser, GetEvent, GetCheckIn}
      \<and> trace s' = trace s @ map EvLookup (completion o1)
      \<and> ru = Inr (fst v) \<and> re = Inr (fst (snd v)) \<and> rc = Inr (snd (snd v)))"
proof -
  let ?r1 = "checkInToEvent f o1 eventId userId d" and ?r2 = "checkInToEvent f o2 eventId userId d"
  have first: "f_transaction f = None \<and> lookup_errors f o1 \<noteq> [] \<longrightarrow>
        promise ?r1 = Rejected (StorageError (hd (lookup_errors f o1)))"
  proof (cases "lookup_errors f o1")
    case Nil
    then show ?thesis by simp
  next
    case (Cons m ms)
    then show ?thesis using checkIn_lookup_fails(1)[of f o1 m ms] by simp
  qed
  have joined: "\<forall>ru re rc s v s'. promise_all o1 ru re rc s = Inr (v, s') \<longrightarrow>
        set (completion o1) = {GetUser, GetEvent, GetCheckIn}
      \<and> trace s' = trace s @ map EvLookup (completion o1)
      \<and> ru = Inr (fst v) \<and> re = Inr (fst (snd v)) \<and> rc = Inr (snd (snd v))"
  proof (intro allI impI)
    fix ru re rc s v s'
    assume a: "promise_all o1 ru re rc s = Inr (v, s')"
    obtain u e c where v: "v = (u, e, c)" by (cases v) auto
    have "set (completion o1) = {GetUser, GetEvent, GetCheckIn}" by (cases o1) auto
    with promise_all_Inr[OF a[unfolded v]] v
    show "set (completion o1) = {GetUser, GetEvent, GetCheckIn}
      \<and> trace s' = trace s @ map EvLookup (completion o1)
      \<and> ru = Inr (fst v) \<and> re = Inr (fst (snd v)) \<and> rc = Inr (snd (snd v))" by simp
  qed
  have same: "db ?r1 = db ?r2 \<and> txn_status ?r1 = txn_status ?r2
      \<and> (lookups_agree f \<longrightarrow> promise ?r1 = promise ?r2)"
  proof (cases "f_transaction f")
    case (Some x)
    then show ?thesis by (simp add: checkInToEvent_def transaction_cases)
  next
    case None
    show ?thesis
    proof (cases "lookup_errors f UEC")
      case Nil
      then show ?thesis using checkIn_answered_order[of f o1 eventId userId d o2] by simp
    next
      case (Cons x xs)
      then have "lookup_errors f UEC \<noteq> []" by simp
      then have "lookup_errors f o1 \<noteq> []" "lookup_errors f o2 \<noteq> []"
        unfolding lookup_errors_Nil by simp_all
      then obtain m1 ms1 m2 ms2 where
        e1: "lookup_errors f o1 = m1 # ms1" and e2: "lookup_errors f o2 = m2 # ms2"
        by (meson list.exhaust)
      have "m1 \<in> set (lookup_errors f UEC)" "m2 \<in> set (lookup_errors f UEC)"
        using lookup_errors_set[of f o1] lookup_errors_set[of f o2] e1 e2 by auto
      then have "lookups_agree f \<longrightarrow> m1 = m2"
        using lookups_agree_same by blast
      then show ?thesis
        by (simp add: checkIn_lookup_fails[OF None e1] checkIn_lookup_fails[OF None e2])
    qed
  qed
  from same first joined show ?thesis by blast
qed

text \<open>
  As stated, the claim fails: with two lookups failing with different errors, the
  result depends on which of them completes first.
\<close>

theorem checkIn_lookup_order_counterexample:
  "promise (checkInToEvent (reliable\<lparr>f_findUser := Some ''E1'', f_findCheckIn := Some ''E2''\<rparr>)
      UEC 5 42 example_db) \<noteq>
   promise (checkInToEvent (reliable\<lparr>f_findUser := Some ''E1'', f_findCheckIn := Some ''E2''\<rparr>)
      CEU 5 42 example_db)"
  by (simp add: checkInToEvent_def transaction_cases checkIn_try_def promise_all_def
        getUserById_def getEventById_def getCheckIn_def reliable_def log_def
        rollback_fields reject_fields)

theorem checkIn_lookup_order_witness:
  "lookups_agree reliable
   \<and> promise (checkInToEvent reliable UEC 5 42 example_db) =
       promise (checkInToEvent reliable CEU 5 42 example_db)
   \<and> promise (checkInToEvent (reliable\<lparr>f_findUser := Some ''E1'', f_findCheckIn := Some ''E2''\<rparr>)
        CEU 5 42 example_db) = Rejected (StorageError ''E2'')"
proof -
  let ?f = "reliable\<lparr>f_findUser := Some ''E1'', f_findCheckIn := Some ''E2''\<rparr>"
  have h1: "lookups_agree reliable"
    by (simp add: lookups_agree_def lookup_errors_def lookup_error_def reliable_def
          List.map_filter_simps)
  have h2: "f_transaction ?f = None" by (simp add: reliable_def)
  have h3: "lookup_errors ?f CEU = [''E2'', ''E1'']"
    by (simp add: lookup_errors_def lookup_error_def reliable_def List.map_filter_simps)
  from checkIn_lookup_order[of reliable UEC 5 42 example_db CEU]
       checkIn_lookup_order[of ?f CEU 5 42 example_db CEU] h1 h2 h3
  show ?thesis by simp
qed

text \<open>
  Claim C4 asks that the transaction be closed when the result is delivered. On the
  path where the check-in exists, here \<^verbatim>\<open>checkInToEvent(7, 42)\<close>, the call
  resolves and neither commits nor rolls back: the transaction stays open.
\<close>

theorem checkIn_already_leaves_transaction_open:
  "txn_status (checkInToEvent reliable UEC 7 42 example_db) = Open
   \<and> promise (checkInToEvent reliable UEC 7 42 example_db) =
        Resolved \<lparr>success = False, message = Some ''a@b.com has already checked into Workshop''\<rparr>
   \<and> trace (checkInToEvent reliable UEC 7 42 example_db) =
        [EvBegin, EvLookup GetUser, EvLookup GetEvent, EvLookup GetCheckIn,
         EvSettled (Resolved \<lparr>success = False,
           message = Some ''a@b.com has already checked into Workshop''\<rparr>)]"
  by (simp add: run_defs)

text \<open>
  Claim C6 asks that the transaction be committed before the success is returned. On
  the fresh path, here \<^verbatim>\<open>checkInToEvent(5, 42)\<close>, the row is created under the
  transaction, but the promise is resolved before the commit; when the commit then
  fails, the caller holds \<^verbatim>\<open>success: true\<close> and the row is rolled back.
\<close>

theorem checkIn_resolves_before_commit:
  "trace (checkInToEvent reliable UEC 5 42 example_db) =
     [EvBegin, EvLookup GetUser, EvLookup GetEvent, EvLookup GetCheckIn, EvCreate,
      EvSettled (Resolved \<lparr>success = True, message = Some ''a@b.com checked into Hackathon!''\<rparr>),
      EvCommit]
   \<and> promise (checkInToEvent (reliable\<lparr>f_commit := Some ''commit failed''\<rparr>) UEC 5 42 example_db) =
        Resolved \<lparr>success = True, message = Some ''a@b.com checked into Hackathon!''\<rparr>
   \<and> count_checkins (db (checkInToEvent (reliable\<lparr>f_commit := Some ''commit failed''\<rparr>)
        UEC 5 42 example_db)) 5 42 = 0
   \<and> txn_status (checkInToEvent (reliable\<lparr>f_commit := Some ''commit failed''\<rparr>)
        UEC 5 42 example_db) = RolledBack"
  by (simp add: run_defs)

section \<open>The delete operation\<close>

text \<open>
  Claim C7. On a working storage, \<^verbatim>\<open>deleteUserById\<close> is rejected with a
  NotFoundError exactly when no user has the id, and then leaves the database as it was;
  for a user that exists it resolves with \<^verbatim>\<open>{success: true, message: null}\<close> and
  the database loses the user and the tokens, applications, talks and check-ins that
  refer to the user.
\<close>

theorem deleteUserById_spec:
  assumes "faultless f"
  shows "((\<exists>m. promise (deleteUserById f uid d) = Rejected (NotFoundError m)) \<longleftrightarrow> \<not> user_exists d uid)
       \<and> (\<not> user_exists d uid \<longrightarrow>
            promise (deleteUserById f uid d) = Rejected (NotFoundError ''User does not exist'')
          \<and> db (deleteUserById f uid d) = d)
       \<and> (user_exists d uid \<longrightarrow>
            promise (deleteUserById f uid d) = Resolved \<lparr>success = True, message = None\<rparr>
          \<and> db (deleteUserById f uid d) = destroy_user uid d
          \<and> \<not> user_exists (db (deleteUserById f uid d)) uid
          \<and> (\<forall>t \<in> set (tokens (db (deleteUserById f uid d))). token_user_id t \<noteq> uid)
          \<and> (\<forall>a \<in> set (applications (db (deleteUserById f uid d))). application_user_id a \<noteq> uid)
          \<and> (\<forall>t \<in> set (talks (db (deleteUserById f uid d))). talk_speaker_id t \<noteq> uid)
          \<and> (\<forall>c \<in> set (checkins (db (deleteUserById f uid d))). ci_user_id c \<noteq> uid))"
proof (cases "find (\<lambda>u. user_id u = uid) (users d)")
  case None
  then have g: "getUserById f d uid = Inr None"
    using assms by (simp add: lookups_faultless)
  have "promise (deleteUserById f uid d) = Rejected (NotFoundError ''User does not exist'')"
    and "db (deleteUserById f uid d) = d"
    by (simp_all add: deleteUserById_def g reject_fields init_def log_def)
  with None show ?thesis by (simp add: user_exists_def)
next
  case (Some usr)
  then have g: "getUserById f d uid = Inr (Some usr)"
    using assms by (simp add: lookups_faultless)
  from Some have id: "user_id usr = uid" by (rule find_user_id)
  have ft: "f_transaction f = None" "f_destroy f = None" "f_commit f = None"
    using assms by (simp_all add: faultless_def)
  have p: "promise (deleteUserById f uid d) = Resolved \<lparr>success = True, message = None\<rparr>"
    by (rule deleteUserById_found(1)[OF g ft(1)])
  have dbe: "db (deleteUserById f uid d) = destroy_user uid d"
    using deleteUserById_found(2)[OF g ft] id by simp
  have gone: "\<not> user_exists (destroy_user uid d) uid"
    by (simp add: user_exists_def destroy_user_def find_None_iff)
  have rows: "(\<forall>t \<in> set (tokens (destroy_user uid d)). token_user_id t \<noteq> uid)"
     "(\<forall>a \<in> set (applications (destroy_user uid d)). application_user_id a \<noteq> uid)"
     "(\<forall>t \<in> set (talks (destroy_user uid d)). talk_speaker_id t \<noteq> uid)"
     "(\<forall>c \<in> set (checkins (destroy_user uid d)). ci_user_id c \<noteq> uid)"
    by (simp_all add: destroy_user_def)
  from Some have ex: "user_exists d uid" by (simp add: user_exists_def)
  show ?thesis
    using p gone rows ex by (simp add: dbe)
qed

theorem deleteUserById_spec_witness:
  "faultless reliable
   \<and> user_exists example_db 42 \<and> \<not> user_exists example_db 43
   \<and> promise (deleteUserById reliable 43 example_db) = Rejected (NotFoundError ''User does not exist'')
   \<and> db (deleteUserById reliable 43 example_db) = example_db
   \<and> promise (deleteUserById reliable 42 example_db) = Resolved \<lparr>success = True, message = None\<rparr>
   \<and> db (deleteUserById reliable 42 example_db) =
        \<lparr>users = [], events = events example_db, checkins = [],
         tokens = [], talks = [], applications = []\<rparr>"
proof -
  have h1: "faultless reliable" by (simp add: faultless_def reliable_def)
  have h2: "user_exists example_db 42" by (simp add: user_exists_def example_db_def)
  have h3: "\<not> user_exists example_db 43" by (simp add: user_exists_def example_db_def)
  have h4: "destroy_user 42 example_db =
        \<lparr>users = [], events = events example_db, checkins = [],
         tokens = [], talks = [], applications = []\<rparr>"
    by (simp add: destroy_user_def example_db_def)
  from deleteUserById_spec[OF h1, of 43 example_db] deleteUserById_spec[OF h1, of 42 example_db]
    h1 h2 h3 h4 show ?thesis by simp
qed

text \<open>
  Claim C5 asks that success be signalled only after the delete has completed and the
  transaction is committed, with a rollback on a failure in between. Here
  \<^verbatim>\<open>deleteUserById(42)\<close> resolves right after the delete is issued, before it
  completes and before the commit. When the delete fails, the caller still holds
  \<^verbatim>\<open>success: true\<close>, the user is still there and nothing is rolled back; when the
  commit fails, the caller holds \<^verbatim>\<open>success: true\<close> all the same.
\<close>

theorem deleteUserById_resolves_early:
  "trace (deleteUserById reliable 42 example_db) =
     [EvLookup GetUser, EvBegin, EvDestroyIssued,
      EvSettled (Resolved \<lparr>success = True, message = None\<rparr>), EvDestroyDone, EvCommit]
   \<and> promise (deleteUserById (reliable\<lparr>f_destroy := Some ''delete failed''\<rparr>) 42 example_db) =
        Resolved \<lparr>success = True, message = None\<rparr>
   \<and> db (deleteUserById (reliable\<lparr>f_destroy := Some ''delete failed''\<rparr>) 42 example_db) = example_db
   \<and> trace (deleteUserById (reliable\<lparr>f_destroy := Some ''delete failed''\<rparr>) 42 example_db) =
     [EvLookup GetUser, EvBegin, EvDestroyIssued,
      EvSettled (Resolved \<lparr>success = True, message = None\<rparr>), EvDestroyFailed, EvCommit]
   \<and> promise (deleteUserById (reliable\<lparr>f_commit := Some ''commit failed'', destroy_in_txn := True\<rparr>)
        42 example_db) = Resolved \<lparr>success = True, message = None\<rparr>
   \<and> db (deleteUserById (reliable\<lparr>f_commit := Some ''commit failed'', destroy_in_txn := True\<rparr>)
        42 example_db) = example_db"
  by (simp add: run_defs)

end
